theory Spec2Isabelle
  imports Main "HOL-Library.Word" "HOL-Library.Signed_Division"
begin

section \<open>Data model of \<open>src/main.c\<close>\<close>

text \<open>
  The program targets Linux (POSIX timers, real-time signals), where \<open>long\<close> and
  \<open>time_t\<close> are 64-bit and \<open>int\<close> is 32-bit two's complement. Values of type
  \<open>long\<close> are \<open>64 word\<close>: \<open>+\<close>, \<open>-\<close> and \<open>*\<close> wrap around modulo \<open>2 ^ 64\<close>,
  and \<open>sint\<close> reads the signed value. Division and remainder are C's: they truncate
  towards zero.
\<close>

type_synonym long = "64 word"

record timespec =
  tv_sec :: long
  tv_nsec :: long

definition long_div :: "long \<Rightarrow> long \<Rightarrow> long" where
  "long_div a b = word_of_int (sint a sdiv sint b)"

definition long_mod :: "long \<Rightarrow> long \<Rightarrow> long" where
  "long_mod a b = word_of_int (sint a smod sint b)"

definition NSEC_PER_MSEC :: long where
  "NSEC_PER_MSEC = 1000000"

definition NSEC_PER_DECISEC :: long where
  "NSEC_PER_DECISEC = 100000000"

subsection \<open>C strings\<close>

text \<open>
  A C string is the list of its bytes before the terminating NUL. \<open>char_at v i\<close> is
  the read \<open>value[i]\<close>: the byte at \<open>i\<close>, and the terminator at the end of the list.
  The parser stops at the first NUL it reads, so it never reads past the terminator.
  The index \<open>i\<close> (an \<open>int\<close> in the source) is a \<open>nat\<close>: a command-line argument
  is far shorter than \<open>2 ^ 31\<close> bytes.
\<close>

definition NUL :: char where
  "NUL = CHR 0x00"

definition char_at :: "string \<Rightarrow> nat \<Rightarrow> char" where
  "char_at v i = (if i < length v then v ! i else NUL)"

text \<open>\<open>isdigit\<close> of \<open>ctype.h\<close> in the C locale: the bytes \<open>'0'\<close> to \<open>'9'\<close>.\<close>

definition isdigit :: "char \<Rightarrow> bool" where
  "isdigit c = (48 \<le> (of_char c :: nat) \<and> (of_char c :: nat) \<le> 57)"

section \<open>\<open>parse_time_interval\<close>\<close>

text \<open>
  The first loop (lines 84-87):
  \<^verbatim>\<open>for (; isdigit(value[i]); i++) integer_part = integer_part * 10 + value[i] - '0';\<close>
  It returns the index it stopped at and the accumulated \<open>integer_part\<close>.
\<close>

function parse_integer_part :: "string \<Rightarrow> nat \<Rightarrow> long \<Rightarrow> nat \<times> long" where
  "parse_integer_part v i integer_part =
     (if isdigit (char_at v i)
      then parse_integer_part v (i + 1) (integer_part * 10 + of_char (char_at v i) - 48)
      else (i, integer_part))"
  by pat_completeness auto
termination
  by (relation "measure (\<lambda>(v, i, a). length v - i)")
     (auto simp: isdigit_def char_at_def NUL_def split: if_splits)

text \<open>
  The second loop (lines 104-112). The first component of the result says whether the
  loop left through \<open>goto success\<close> (the weight reached zero); the others are the
  index it stopped at and the accumulated \<open>fractional_part\<close>.
\<close>

function parse_fractional_part :: "string \<Rightarrow> nat \<Rightarrow> long \<Rightarrow> long \<Rightarrow> bool \<times> nat \<times> long" where
  "parse_fractional_part v i fractional_part weight =
     (if isdigit (char_at v i)
      then (let fractional_part' = fractional_part + (of_char (char_at v i) - 48) * weight;
                weight' = long_div weight 10
            in if weight' = 0 then (True, i, fractional_part')
               else parse_fractional_part v (i + 1) fractional_part' weight')
      else (False, i, fractional_part))"
  by pat_completeness auto
termination
  by (relation "measure (\<lambda>(v, i, f, w). length v - i)")
     (auto simp: isdigit_def char_at_def NUL_def split: if_splits)

text \<open>
  The function takes the string and the \<open>timespec\<close> that \<open>result\<close> points to, and
  returns the C return value with the \<open>timespec\<close> as the call leaves it.
\<close>

definition success :: "timespec \<Rightarrow> long \<Rightarrow> long \<Rightarrow> int \<times> timespec" where
  "success result integer_part fractional_part =
     (0, result\<lparr>tv_sec := integer_part, tv_nsec := fractional_part\<rparr>)"

definition parse_time_interval :: "string \<Rightarrow> timespec \<Rightarrow> int \<times> timespec" where
  "parse_time_interval v result =
     (case parse_integer_part v 0 0 of (i, integer_part) \<Rightarrow>
        if char_at v i = CHR ''.'' then
          (case parse_fractional_part v (i + 1) 0 NSEC_PER_DECISEC of
             (weight_exhausted, j, fractional_part) \<Rightarrow>
               if weight_exhausted then success result integer_part fractional_part
               else if char_at v j = NUL then
                 (if j = 1 then (- 1, result)
                  else success result integer_part fractional_part)
               else (- 1, result))
        else if char_at v i = NUL then
          (if i = 0 then (- 1, result) else success result integer_part 0)
        else (- 1, result))"

section \<open>The output sinks\<close>

text \<open>
  \<open>int\<close> is \<open>32 word\<close>. Storing a \<open>long\<close> in an \<open>int\<close> keeps the low 32 bits
  (the conversion gcc and clang implement).
\<close>

type_synonym cint = "32 word"

definition long_to_int :: "long \<Rightarrow> cint" where
  "long_to_int x = ucast x"

subsection \<open>\<open>printf\<close> conversions\<close>

text \<open>
  \<open>dec_digits n\<close> is the decimal numeral of \<open>n\<close>, without leading zeros.
  \<open>printf_d w x\<close> is what \<open>printf\<close> writes for \<open>%0wd\<close> (and for \<open>%d\<close> when
  \<open>w = 0\<close>): the sign if \<open>x\<close> is negative, then the digits, padded with zeros on the
  left so that sign and digits take at least \<open>w\<close> characters.
\<close>

definition digit_char :: "nat \<Rightarrow> char" where
  "digit_char d = ''0123456789'' ! d"

fun dec_digits :: "nat \<Rightarrow> string" where
  "dec_digits n =
     (if n < 10 then [digit_char n]
      else dec_digits (n div 10) @ [digit_char (n mod 10)])"

definition zero_pad :: "nat \<Rightarrow> string \<Rightarrow> string" where
  "zero_pad w s = replicate (w - length s) (CHR ''0'') @ s"

definition printf_d :: "nat \<Rightarrow> cint \<Rightarrow> string" where
  "printf_d w x =
     (if sint x < 0 then CHR ''-'' # zero_pad (w - 1) (dec_digits (nat (- sint x)))
      else zero_pad w (dec_digits (nat (sint x))))"

definition apostrophe :: char where
  "apostrophe = CHR 0x27"

definition double_quote :: char where
  "double_quote = CHR 0x22"

definition carriage_return :: char where
  "carriage_return = CHR 0x0D"

definition newline :: char where
  "newline = CHR 0x0A"

subsection \<open>\<open>tty_output_update\<close> and \<open>notty_output_update\<close>\<close>

text \<open>
  Each function computes its four \<open>int\<close> locals (lines 44-47 and 59-62) and returns
  the text its \<open>printf\<close> writes to \<open>stdout\<close>. The locals are returned in the order
  of the \<open>printf\<close> arguments: \<open>(h, m, s, ms)\<close>.
\<close>

definition tty_fields :: "timespec \<Rightarrow> cint \<times> cint \<times> cint \<times> cint" where
  "tty_fields ts =
     (let ms = long_to_int (long_div (tv_nsec ts) NSEC_PER_MSEC);
          s = long_to_int (long_mod (tv_sec ts) 60);
          m = long_to_int (long_mod (long_div (tv_sec ts) 60) 60);
          h = long_to_int (long_div (tv_sec ts) 3600)
      in (h, m, s, ms))"

definition tty_output_update :: "timespec \<Rightarrow> string" where
  "tty_output_update ts =
     (case tty_fields ts of (h, m, s, ms) \<Rightarrow>
        printf_d 0 h @ '':'' @ printf_d 2 m @ [apostrophe] @ printf_d 2 s
          @ [double_quote] @ printf_d 3 ms @ [carriage_return])"

definition notty_fields :: "timespec \<Rightarrow> cint \<times> cint \<times> cint \<times> cint" where
  "notty_fields ts =
     (let ms = long_to_int (long_div (tv_nsec ts) NSEC_PER_MSEC);
          s = long_to_int (long_mod (tv_sec ts) 60);
          m = long_to_int (long_mod (long_div (tv_sec ts) 60) 60);
          h = long_to_int (long_div (tv_sec ts) 3600)
      in (h, m, s, ms))"

definition notty_output_update :: "timespec \<Rightarrow> string" where
  "notty_output_update ts =
     (case notty_fields ts of (h, m, s, ms) \<Rightarrow>
        printf_d 0 h @ '':'' @ printf_d 2 m @ [apostrophe] @ printf_d 2 s
          @ [double_quote] @ printf_d 3 ms @ [newline])"

section \<open>\<open>getopt\<close>\<close>

text \<open>
  \<open>getopt\<close> of \<open>unistd.h\<close>, as POSIX specifies it. Its state is the global
  variables \<open>optind\<close>, \<open>optarg\<close> and \<open>optopt\<close>, and its position inside the
  element of \<open>argv\<close> it is reading: \<open>nextchar\<close> is the index of the next option
  character there, or \<open>0\<close> when the next call starts a new element.
\<close>

record getopt_state =
  optind :: nat
  nextchar :: nat
  optarg :: string
  optopt :: char

text \<open>
  \<open>optstring_lookup optstring c\<close> is \<open>None\<close> when \<open>c\<close> is not an option character
  of \<open>optstring\<close>, and otherwise says whether the option takes an argument (a colon
  follows it).
\<close>

fun optstring_lookup :: "string \<Rightarrow> char \<Rightarrow> bool option" where
  "optstring_lookup [] c = None"
| "optstring_lookup (x # xs) c =
     (if x = c \<and> c \<noteq> CHR '':'' then Some (xs \<noteq> [] \<and> hd xs = CHR '':'')
      else optstring_lookup xs c)"

text \<open>
  One call of \<open>getopt(argc, argv, optstring)\<close>: the returned value and the new state.
  It returns \<open>-1\<close> at the end of \<open>argv\<close>, at the first element that is not an
  option (it does not start with \<open>-\<close>, or is \<open>-\<close> alone) and at \<open>--\<close>, which it
  skips. An unknown option character gives \<open>?\<close>; a missing option argument gives
  \<open>:\<close> when \<open>optstring\<close> starts with a colon, and \<open>?\<close> otherwise; both set
  \<open>optopt\<close>. The GNU library also moves the elements that are not options to the end
  of \<open>argv\<close> before it stops; the two agree on every \<open>argv\<close> without such elements.
\<close>

definition getopt :: "string list \<Rightarrow> string \<Rightarrow> getopt_state \<Rightarrow> int \<times> getopt_state" where
  "getopt argv optstring st =
     (if length argv \<le> optind st then (- 1, st)
      else let a = argv ! optind st in
        if nextchar st = 0 \<and> (length a < 2 \<or> hd a \<noteq> CHR ''-'') then (- 1, st)
        else if nextchar st = 0 \<and> a = ''--'' then (- 1, st\<lparr>optind := optind st + 1\<rparr>)
        else
          let k = (if nextchar st = 0 then 1 else nextchar st);
              c = char_at a k;
              last_char = (length a \<le> k + 1);
              next_st = (if last_char then st\<lparr>optind := optind st + 1, nextchar := 0\<rparr>
                         else st\<lparr>nextchar := k + 1\<rparr>)
          in case optstring_lookup optstring c of
               None \<Rightarrow> (of_char (CHR ''?''), next_st\<lparr>optopt := c\<rparr>)
             | Some False \<Rightarrow> (of_char c, next_st)
             | Some True \<Rightarrow>
                 if \<not> last_char then
                   (of_char c, st\<lparr>optind := optind st + 1, nextchar := 0,
                                  optarg := drop (k + 1) a\<rparr>)
                 else if optind st + 1 < length argv then
                   (of_char c, st\<lparr>optind := optind st + 2, nextchar := 0,
                                  optarg := argv ! (optind st + 1)\<rparr>)
                 else
                   (of_char (if optstring \<noteq> [] \<and> hd optstring = CHR '':'' then CHR '':'' else CHR ''?''),
                    st\<lparr>optind := optind st + 1, nextchar := 0, optopt := c\<rparr>))"

section \<open>\<open>usage\<close> and \<open>parse_args\<close>\<close>

text \<open>
  \<open>usage\<close> writes one line to \<open>stderr\<close> and calls \<open>exit(1)\<close>: the model returns the
  text written and the exit status. \<open>with_message\<close> puts the text \<open>parse_args\<close> wrote
  before the call in front.
\<close>

definition usage :: "string \<Rightarrow> string \<times> int" where
  "usage prog_name = (''usage: '' @ prog_name @ '' [-d delay]'' @ [newline], 1)"

definition with_message :: "string \<Rightarrow> string \<times> int \<Rightarrow> string \<times> int" where
  "with_message msg e = (msg @ fst e, snd e)"

text \<open>
  The \<open>while\<close> loop of \<open>parse_args\<close> (lines 147-168). \<open>Inl\<close> is the exit of the
  process through \<open>usage\<close>; \<open>Inr\<close> is the state of \<open>getopt\<close> and the interval when
  \<open>getopt\<close> has returned \<open>-1\<close>.
\<close>

function parse_args_loop ::
  "string list \<Rightarrow> getopt_state \<Rightarrow> timespec \<Rightarrow> (string \<times> int) + (getopt_state \<times> timespec)" where
  "parse_args_loop argv st refresh_interval =
     (case getopt argv '':d:h'' st of (opt, st') \<Rightarrow>
        if opt = - 1 then Inr (st', refresh_interval)
        else if opt = of_char (CHR ''d'') then
          (case parse_time_interval (optarg st') refresh_interval of (rc, refresh_interval') \<Rightarrow>
             if rc \<noteq> 0 then
               Inl (with_message (''invalid value for option -d: '' @ optarg st' @ [newline])
                      (usage (argv ! 0)))
             else parse_args_loop argv st' refresh_interval')
        else if opt = of_char (CHR ''h'') then Inl (usage (argv ! 0))
        else if opt = of_char (CHR ''?'') then
          Inl (with_message (''unrecognized option -'' @ [optopt st'] @ [newline])
                 (usage (argv ! 0)))
        else if opt = of_char (CHR '':'') then
          Inl (with_message (''option -'' @ [optopt st'] @ '' requires an argument'' @ [newline])
                 (usage (argv ! 0)))
        else parse_args_loop argv st' refresh_interval)"
  by pat_completeness auto
termination
proof -
  let ?R = "measures [\<lambda>(argv, st, r :: timespec). length argv - optind st,
                      \<lambda>(argv, st, r). length (argv ! optind st) - nextchar st]"
  have progress:
    "length argv - optind st' < length argv - optind st \<or>
     (optind st' = optind st \<and>
      length (argv ! optind st) - nextchar st' < length (argv ! optind st) - nextchar st)"
    if "(opt, st') = getopt argv os st" and "opt \<noteq> - 1" for argv os st opt st'
    using that
    by (auto simp: getopt_def Let_def split: if_splits option.splits bool.splits)
  show ?thesis
  proof (relation ?R)
    show "wf ?R" by simp
  next
    fix argv st and refresh_interval refresh_interval' :: timespec and opt st'
    assume "(opt, st') = getopt argv '':d:h'' st" and "opt \<noteq> - 1"
    from progress [OF this]
    show "((argv, st', refresh_interval'), argv, st, refresh_interval) \<in> ?R"
      by auto
  next
    fix argv st and refresh_interval :: timespec and opt st'
    assume "(opt, st') = getopt argv '':d:h'' st" and "opt \<noteq> - 1"
    from progress [OF this]
    show "((argv, st', refresh_interval), argv, st, refresh_interval) \<in> ?R"
      by auto
  qed
qed

text \<open>
  \<open>parse_args\<close> takes \<open>argv\<close> (\<open>argc\<close> is its length) and the \<open>timespec\<close> that
  \<open>refresh_interval\<close> points to, which \<open>main\<close> leaves uninitialised.
\<close>

definition getopt_init :: getopt_state where
  "getopt_init = \<lparr>optind = 1, nextchar = 0, optarg = [], optopt = CHR ''?''\<rparr>"

definition parse_args :: "string list \<Rightarrow> timespec \<Rightarrow> (string \<times> int) + timespec" where
  "parse_args argv refresh_interval =
     (case parse_args_loop argv getopt_init
             (refresh_interval\<lparr>tv_sec := 0, tv_nsec := 100 * NSEC_PER_MSEC\<rparr>) of
        Inl e \<Rightarrow> Inl e
      | Inr (st, refresh_interval') \<Rightarrow>
          if optind st \<noteq> length argv then
            Inl (with_message (''unexpected argument'' @ [newline]) (usage (argv ! 0)))
          else Inr refresh_interval')"

section \<open>The display loop of \<open>main\<close>\<close>

text \<open>
  The loop of lines 226-238. Its environment is the list of what the following calls of
  \<open>sigwaitinfo\<close> return, each with the time that \<open>stopwatch_get_time\<close> then stores
  in \<open>curr_time\<close> (the stopwatch is in \<open>stopwatch.h\<close>, outside this file). The loop
  takes the sink's \<open>update\<close> function, the value of \<open>curr_signal\<close> and the text
  written so far to \<open>stdout\<close> and \<open>stderr\<close>. With no delivery left and
  \<open>curr_signal\<close> not \<open>SIGINT\<close>, the process is blocked in \<open>sigwaitinfo\<close>.
\<close>

definition SIGINT :: int where
  "SIGINT = 2"

datatype loop_state = Running | Stopped int

record streams =
  stdout :: string
  stderr :: string

fun display_loop ::
  "(timespec \<Rightarrow> string) \<Rightarrow> int \<Rightarrow> (int \<times> timespec) list \<Rightarrow> streams \<Rightarrow> loop_state \<times> streams" where
  "display_loop update curr_signal [] io =
     (if curr_signal \<noteq> SIGINT then (Running, io)
      else (Stopped 0, io\<lparr>stdout := stdout io @ [newline]\<rparr>))"
| "display_loop update curr_signal ((delivered, curr_time) # deliveries) io =
     (if curr_signal \<noteq> SIGINT then
        (if delivered = - 1 then
           (Stopped (- 1),
            io\<lparr>stderr := stderr io @ ''error calling sigwaitinfo'' @ [newline]\<rparr>)
         else display_loop update delivered deliveries
                (io\<lparr>stdout := stdout io @ update curr_time\<rparr>))
      else (Stopped 0, io\<lparr>stdout := stdout io @ [newline]\<rparr>))"

section \<open>Notions of the specification\<close>

text \<open>
  The value of a decimal digit, the number a string of decimal digits denotes, and the
  integer part of an input: its longest prefix of digits.
\<close>

definition digit_val :: "char \<Rightarrow> nat" where
  "digit_val c = of_char c - 48"

definition dec_value :: "string \<Rightarrow> nat" where
  "dec_value ds = foldl (\<lambda>a c. a * 10 + digit_val c) 0 ds"

definition integer_digits :: "string \<Rightarrow> string" where
  "integer_digits v = takeWhile isdigit v"

text \<open>
  The nanoseconds a string of fractional digits denotes: the digit at the 1-based
  position \<open>k\<close> weighs \<open>10 ^ (9 - k)\<close>.
\<close>

definition fraction_nsec :: "string \<Rightarrow> nat" where
  "fraction_nsec fs = (\<Sum>k = 1..length fs. digit_val (fs ! (k - 1)) * 10 ^ (9 - k))"

text \<open>
  The rendering \<open>H:MM'SS"mmm\<close> of an elapsed time of \<open>secs\<close> seconds and \<open>nsecs\<close>
  nanoseconds: the whole hours, the minutes within the hour and the seconds within the
  minute on two digits, and the milliseconds on three digits, truncated.
\<close>

definition render_elapsed :: "nat \<Rightarrow> nat \<Rightarrow> string" where
  "render_elapsed secs nsecs =
     dec_digits (secs div 3600) @ '':''
       @ zero_pad 2 (dec_digits (secs div 60 mod 60)) @ [apostrophe]
       @ zero_pad 2 (dec_digits (secs mod 60)) @ [double_quote]
       @ zero_pad 3 (dec_digits (nsecs div 1000000))"

text \<open>
  Two notions for the proofs: the fractional digits of an input (the digits that follow
  the character after its integer part) and the weighted sum the second loop
  accumulates, the first digit weighing \<open>10 ^ n\<close>.
\<close>

definition fraction_digits :: "string \<Rightarrow> string" where
  "fraction_digits v = takeWhile isdigit (drop (Suc (length (integer_digits v))) v)"

fun weighted :: "nat \<Rightarrow> string \<Rightarrow> nat" where
  "weighted n [] = 0"
| "weighted n (c # cs) = digit_val c * 10 ^ n + weighted (n - 1) cs"

section \<open>Facts about the parser's loops\<close>

declare parse_integer_part.simps [simp del]
declare parse_fractional_part.simps [simp del]
declare parse_args_loop.simps [simp del]
declare dec_digits.simps [simp del]

lemma char_at_digit:
  "isdigit (char_at v i) \<Longrightarrow> i < length v \<and> isdigit (v ! i)"
  by (auto simp: char_at_def isdigit_def NUL_def split: if_splits)

lemma digits_from_step:
  assumes "isdigit (char_at v i)"
  shows "takeWhile isdigit (drop i v) = char_at v i # takeWhile isdigit (drop (Suc i) v)"
proof -
  from assms have lt: "i < length v" and d: "isdigit (v ! i)"
    using char_at_digit by blast+
  have "drop i v = v ! i # drop (Suc i) v"
    using lt by (simp add: Cons_nth_drop_Suc)
  with d lt show ?thesis by (simp add: char_at_def)
qed

lemma digits_from_stop:
  assumes "\<not> isdigit (char_at v i)"
  shows "takeWhile isdigit (drop i v) = []"
proof (cases "i < length v")
  case True
  then have "drop i v = v ! i # drop (Suc i) v"
    by (simp add: Cons_nth_drop_Suc)
  with assms True show ?thesis by (simp add: char_at_def)
next
  case False
  then show ?thesis by simp
qed

lemma word_digit_step:
  assumes "isdigit c"
  shows "(a :: long) * 10 + of_char c - 48 = a * 10 + of_nat (digit_val c)"
proof -
  from assms have "48 \<le> (of_char c :: nat)" by (simp add: isdigit_def)
  then have "(of_nat (of_char c - 48) :: long) = of_nat (of_char c) - of_nat 48"
    by (rule of_nat_diff)
  then show ?thesis by (simp add: digit_val_def of_nat_of_char)
qed

lemma parse_integer_part_eq:
  "parse_integer_part v i a =
     (i + length (takeWhile isdigit (drop i v)),
      foldl (\<lambda>a c. a * 10 + of_nat (digit_val c)) a (takeWhile isdigit (drop i v)))"
proof (induction v i a rule: parse_integer_part.induct)
  case (1 v i a)
  show ?case
  proof (cases "isdigit (char_at v i)")
    case True
    note step = digits_from_step [OF True]
    have "parse_integer_part v i a
        = parse_integer_part v (i + 1) (a * 10 + of_char (char_at v i) - 48)"
      using True by (subst parse_integer_part.simps) simp
    also have "\<dots> = (i + 1 + length (takeWhile isdigit (drop (i + 1) v)),
        foldl (\<lambda>a c. a * 10 + of_nat (digit_val c)) (a * 10 + of_char (char_at v i) - 48)
          (takeWhile isdigit (drop (i + 1) v)))"
      using "1.IH" [OF True] .
    finally show ?thesis
      using True by (simp add: step word_digit_step)
  next
    case False
    then show ?thesis
      by (subst parse_integer_part.simps) (simp add: digits_from_stop)
  qed
qed

lemma foldl_word_of_nat:
  "foldl (\<lambda>a c. a * 10 + of_nat (digit_val c)) (of_nat n :: long) ds
     = of_nat (foldl (\<lambda>a c. a * 10 + digit_val c) n ds)"
proof (induction ds arbitrary: n)
  case Nil
  show ?case by simp
next
  case (Cons c ds)
  have "(of_nat n :: long) * 10 + of_nat (digit_val c) = of_nat (n * 10 + digit_val c)"
    by simp
  then show ?case using Cons.IH [of "n * 10 + digit_val c"] by simp
qed

lemma parse_integer_part_value:
  "parse_integer_part v 0 0 =
     (length (integer_digits v), of_nat (dec_value (integer_digits v)))"
  using foldl_word_of_nat [of 0 "integer_digits v"]
  by (simp add: parse_integer_part_eq dec_value_def integer_digits_def)

lemma word_digit_val:
  assumes "isdigit c"
  shows "(of_char c - 48 :: long) = of_nat (digit_val c)"
  using word_digit_step [OF assms, of 0] by simp

lemma sint_long_of_nat:
  assumes "n < 2 ^ 63"
  shows "sint (of_nat n :: long) = int n"
proof -
  have lt: "int n < 2 ^ 63"
    using assms by (metis of_nat_less_iff of_nat_numeral of_nat_power)
  have "sint (word_of_int (int n) :: long) = signed_take_bit (LENGTH(64) - 1) (int n)"
    by (rule sint_sbintrunc')
  then have "sint (of_nat n :: long) = signed_take_bit 63 (int n)"
    by simp
  also have "\<dots> = int n"
    using lt by (intro signed_take_bit_int_eq_self) simp_all
  finally show ?thesis .
qed

lemma pow10_bound: "n \<le> 8 \<Longrightarrow> (10::nat) ^ n \<le> 100000000"
  using power_increasing [of n 8 "10::nat"] by simp

lemma weight_step:
  assumes "n \<le> 7"
  shows "long_div (10 ^ Suc n) 10 = 10 ^ n" and "(10 ^ n :: long) \<noteq> 0"
proof -
  have b: "(10::nat) ^ Suc n < 2 ^ 63" "(10::nat) ^ n < 2 ^ 63"
    using pow10_bound [of "Suc n"] pow10_bound [of n] assms by simp_all
  have s: "sint (10 ^ Suc n :: long) = int (10 ^ Suc n)"
    using sint_long_of_nat [OF b(1)] by simp
  have "sint (10 ^ Suc n :: long) sdiv sint (10 :: long) = int (10 ^ n)"
    unfolding s by (simp add: signed_divide_int_def)
  then show "long_div (10 ^ Suc n) 10 = 10 ^ n"
    by (simp add: long_div_def)
  have "sint (10 ^ n :: long) = int (10 ^ n)"
    using sint_long_of_nat [OF b(2)] by simp
  then show "(10 ^ n :: long) \<noteq> 0"
    by (metis of_nat_0_eq_iff power_not_zero sint_0 zero_neq_numeral of_nat_eq_0_iff)
qed

lemma weight_last: "long_div 1 10 = 0"
  by (simp add: long_div_def signed_divide_int_def)

lemma parse_fractional_part_eq:
  assumes "n \<le> 8"
  shows "parse_fractional_part v i f (10 ^ n) =
     (let fs = takeWhile isdigit (drop i v)
      in if n < length fs then (True, i + n, f + of_nat (weighted n (take (Suc n) fs)))
         else (False, i + length fs, f + of_nat (weighted n fs)))"
  using assms
proof (induction n arbitrary: i f)
  case 0
  show ?case
  proof (cases "isdigit (char_at v i)")
    case True
    then show ?thesis
      by (subst parse_fractional_part.simps)
         (simp add: digits_from_step weight_last word_digit_val)
  next
    case False
    then show ?thesis
      by (subst parse_fractional_part.simps) (simp add: digits_from_stop)
  qed
next
  case (Suc n)
  then have n: "n \<le> 7" and n8: "n \<le> 8" by simp_all
  show ?case
  proof (cases "isdigit (char_at v i)")
    case True
    have "parse_fractional_part v i f (10 ^ Suc n)
        = parse_fractional_part v (i + 1) (f + of_nat (digit_val (char_at v i)) * 10 ^ Suc n) (10 ^ n)"
      using True weight_step [OF n]
      by (subst parse_fractional_part.simps) (simp add: word_digit_val Let_def)
    also note Suc.IH [OF n8]
    finally show ?thesis
      by (simp add: digits_from_step [OF True] Let_def add.assoc)
  next
    case False
    then show ?thesis
      by (subst parse_fractional_part.simps) (simp add: digits_from_stop)
  qed
qed

lemma digit_val_le: "isdigit c \<Longrightarrow> digit_val c \<le> 9"
  unfolding isdigit_def digit_val_def by linarith

lemma weighted_bound:
  assumes "\<forall>c\<in>set cs. isdigit c" and "length cs \<le> Suc n"
  shows "weighted n cs < 10 ^ Suc n"
  using assms
proof (induction cs arbitrary: n)
  case Nil
  show ?case by simp
next
  case (Cons c cs)
  have d: "digit_val c * 10 ^ n \<le> 9 * 10 ^ n"
    using Cons.prems by (simp add: digit_val_le)
  show ?case
  proof (cases n)
    case 0
    with Cons.prems have "cs = []" by simp
    with d 0 show ?thesis by simp
  next
    case (Suc m)
    with Cons.prems have "weighted m cs < 10 ^ n"
      using Cons.IH [of m] by simp
    with d have "digit_val c * 10 ^ n + weighted m cs < 9 * 10 ^ n + 10 ^ n"
      by linarith
    with Suc show ?thesis by simp
  qed
qed

lemma weighted_sum:
  assumes "length cs \<le> Suc n"
  shows "weighted n cs = (\<Sum>k<length cs. digit_val (cs ! k) * 10 ^ (n - k))"
  using assms
proof (induction cs arbitrary: n)
  case Nil
  show ?case by simp
next
  case (Cons c cs)
  show ?case
  proof (cases n)
    case 0
    with Cons.prems have "cs = []" by simp
    then show ?thesis by simp
  next
    case (Suc m)
    with Cons.prems have "weighted m cs = (\<Sum>k<length cs. digit_val (cs ! k) * 10 ^ (m - k))"
      by (intro Cons.IH) simp
    with Suc show ?thesis
      by (simp add: sum.lessThan_Suc_shift del: sum.lessThan_Suc)
  qed
qed

lemma weighted_fraction_nsec:
  assumes "length fs \<le> 9"
  shows "weighted 8 fs = fraction_nsec fs"
proof -
  have "fraction_nsec fs = (\<Sum>k = Suc 0..<Suc (length fs). digit_val (fs ! (k - 1)) * 10 ^ (9 - k))"
    unfolding fraction_nsec_def by (simp add: atLeastLessThanSuc_atLeastAtMost)
  also have "\<dots> = (\<Sum>k = 0..<length fs. digit_val (fs ! k) * 10 ^ (8 - k))"
    by (subst sum.shift_bounds_Suc_ivl) simp
  also have "\<dots> = weighted 8 fs"
    using assms by (simp add: weighted_sum atLeast0LessThan)
  finally show ?thesis by simp
qed

lemma parse_fractional_part_decisec:
  "parse_fractional_part v i 0 NSEC_PER_DECISEC =
     (let fs = takeWhile isdigit (drop i v)
      in if 8 < length fs then (True, i + 8, of_nat (weighted 8 (take 9 fs)))
         else (False, i + length fs, of_nat (weighted 8 fs)))"
  using parse_fractional_part_eq [of 8 v i 0]
  by (simp add: NSEC_PER_DECISEC_def Let_def)

lemma parse_time_interval_eq:
  "parse_time_interval v r =
     (let ds = integer_digits v; fs = fraction_digits v
      in if char_at v (length ds) = CHR ''.'' then
           (if 8 < length fs then
              success r (of_nat (dec_value ds)) (of_nat (weighted 8 (take 9 fs)))
            else if char_at v (Suc (length ds + length fs)) = NUL then
              (if ds = [] \<and> fs = [] then (- 1, r)
               else success r (of_nat (dec_value ds)) (of_nat (weighted 8 fs)))
            else (- 1, r))
         else if char_at v (length ds) = NUL then
           (if ds = [] then (- 1, r) else success r (of_nat (dec_value ds)) 0)
         else (- 1, r))"
  unfolding parse_time_interval_def parse_integer_part_value
  by (simp add: parse_fractional_part_decisec fraction_digits_def Let_def)

section \<open>The parser on inputs of a given shape\<close>

lemma integer_digits_all:
  assumes "\<forall>c\<in>set ds. isdigit c"
  shows "integer_digits ds = ds"
  using assms by (simp add: integer_digits_def)

lemma point_not_digit: "\<not> isdigit (CHR ''.'')"
  by (simp add: isdigit_def)

lemma integer_digits_point:
  assumes "\<forall>c\<in>set ds. isdigit c"
  shows "integer_digits (ds @ CHR ''.'' # rest) = ds"
  using assms by (simp add: integer_digits_def takeWhile_tail point_not_digit)

lemma fraction_digits_point:
  assumes "\<forall>c\<in>set ds. isdigit c"
  shows "fraction_digits (ds @ CHR ''.'' # rest) = takeWhile isdigit rest"
  using integer_digits_point [OF assms, of rest] by (simp add: fraction_digits_def)

lemma char_at_end: "char_at v (length v) = NUL"
  by (simp add: char_at_def)

lemma char_at_append_right: "char_at (xs @ ys) (length xs + k) = char_at ys k"
  by (simp add: char_at_def nth_append)

lemma digit_not_NUL: "isdigit c \<Longrightarrow> c \<noteq> NUL \<and> c \<noteq> CHR ''.''"
  by (auto simp: isdigit_def NUL_def)

text \<open>The parser on a string of digits alone.\<close>

lemma parse_digits:
  assumes "\<forall>c\<in>set ds. isdigit c"
  shows "parse_time_interval ds r =
           (if ds = [] then (- 1, r) else success r (of_nat (dec_value ds)) 0)"
  using assms
  by (simp add: parse_time_interval_eq integer_digits_all char_at_end Let_def NUL_def)

text \<open>The parser on digits, a point and any rest.\<close>

lemma parse_point:
  assumes "\<forall>c\<in>set ds. isdigit c"
  shows "parse_time_interval (ds @ CHR ''.'' # rest) r =
     (let fs = takeWhile isdigit rest
      in if 8 < length fs then
           success r (of_nat (dec_value ds)) (of_nat (weighted 8 (take 9 fs)))
         else if char_at rest (length fs) = NUL then
           (if ds = [] \<and> fs = [] then (- 1, r)
            else success r (of_nat (dec_value ds)) (of_nat (weighted 8 fs)))
         else (- 1, r))"
proof -
  let ?v = "ds @ CHR ''.'' # rest"
  have p: "char_at ?v (length ds) = CHR ''.''"
    using char_at_append_right [of ds "CHR ''.'' # rest" 0] by (simp add: char_at_def)
  have q: "char_at ?v (Suc (length ds + k)) = char_at rest k" for k
    using char_at_append_right [of "ds @ ''.''" rest k] by simp
  show ?thesis
    by (simp add: parse_time_interval_eq integer_digits_point [OF assms]
          fraction_digits_point [OF assms] p q Let_def)
qed

lemma sint_nsec:
  assumes "\<forall>c\<in>set fs. isdigit c" and "length fs \<le> 9"
  shows "sint (of_nat (weighted 8 fs) :: long) = int (weighted 8 fs)"
    and "weighted 8 fs < 1000000000"
proof -
  show b: "weighted 8 fs < 1000000000"
    using weighted_bound [OF assms(1), of 8] assms(2) by simp
  then have "weighted 8 fs < 2 ^ 63" by simp
  then show "sint (of_nat (weighted 8 fs) :: long) = int (weighted 8 fs)"
    by (rule sint_long_of_nat)
qed

text \<open>The two ways the parser returns, and the equations that evaluate it on a literal.\<close>

lemma parse_time_interval_cases:
  "parse_time_interval v r = (- 1, r) \<or> (\<exists>a b. parse_time_interval v r = success r a b)"
proof -
  obtain i a where p: "parse_integer_part v 0 0 = (i, a)"
    by force
  obtain w j b where q: "parse_fractional_part v (Suc i) 0 NSEC_PER_DECISEC = (w, j, b)"
    by (metis prod_cases3)
  have "parse_time_interval v r = (- 1, r) \<or> parse_time_interval v r = success r a b
      \<or> parse_time_interval v r = success r a 0"
    by (simp add: parse_time_interval_def p q)
  then show ?thesis by blast
qed

lemmas parse_eval =
  parse_time_interval_def parse_integer_part.simps parse_fractional_part.simps success_def
  isdigit_def char_at_def NUL_def long_div_def NSEC_PER_DECISEC_def signed_divide_int_def

lemma fraction_digits_are_digits: "\<forall>c\<in>set (fraction_digits v). isdigit c"
  unfolding fraction_digits_def by (metis set_takeWhileD)

lemma parse_success_fields:
  assumes "fst (parse_time_interval v r) = 0"
  shows "tv_sec (snd (parse_time_interval v r)) = of_nat (dec_value (integer_digits v))
       \<and> (\<exists>fs. (\<forall>c\<in>set fs. isdigit c) \<and> length fs \<le> 9
              \<and> tv_nsec (snd (parse_time_interval v r)) = of_nat (weighted 8 fs))"
proof -
  let ?ds = "integer_digits v" and ?fs = "fraction_digits v"
  let ?goal = "\<lambda>res. tv_sec (snd res) = of_nat (dec_value ?ds)
       \<and> (\<exists>fs. (\<forall>c\<in>set fs. isdigit c) \<and> length fs \<le> 9
              \<and> tv_nsec (snd res) = (of_nat (weighted 8 fs) :: long))"
  note digits = fraction_digits_are_digits [of v]
  then have digits9: "\<forall>c\<in>set (take 9 ?fs). isdigit c"
    by (meson in_set_takeD)
  have nine: "?goal (success r (of_nat (dec_value ?ds)) (of_nat (weighted 8 (take 9 ?fs))))"
    using digits9 by (auto simp: success_def intro!: exI [of _ "take 9 ?fs"])
  have fewer: "?goal (success r (of_nat (dec_value ?ds)) (of_nat (weighted 8 ?fs)))"
    if "\<not> 8 < length ?fs"
    using digits that by (auto simp: success_def intro!: exI [of _ ?fs])
  have none: "?goal (success r (of_nat (dec_value ?ds)) 0)"
    by (auto simp: success_def intro!: exI [of _ "[]"])
  have not_error: "parse_time_interval v r \<noteq> (- 1, r)"
    using assms by auto
  show ?thesis
  proof (cases "char_at v (length ?ds) = CHR ''.''")
    case point: True
    show ?thesis
    proof (cases "8 < length ?fs")
      case True
      with point nine show ?thesis
        by (simp add: parse_time_interval_eq [of v r] Let_def)
    next
      case False
      have "parse_time_interval v r = (- 1, r) \<or> parse_time_interval v r
          = success r (of_nat (dec_value ?ds)) (of_nat (weighted 8 ?fs))"
        using point False by (simp add: parse_time_interval_eq [of v r] Let_def)
      with not_error fewer [OF False] show ?thesis by auto
    qed
  next
    case False
    then have "parse_time_interval v r = (- 1, r)
        \<or> parse_time_interval v r = success r (of_nat (dec_value ?ds)) 0"
      by (simp add: parse_time_interval_eq [of v r] Let_def)
    with not_error none show ?thesis by auto
  qed
qed

section \<open>Facts about the output sinks\<close>

lemma replicate_small:
  "replicate 1 c = [c]" "replicate 2 c = [c, c]" "replicate 3 c = [c, c, c]"
  by (simp_all add: numeral_2_eq_2 numeral_3_eq_3)

lemmas output_eval = replicate_small render_elapsed_def
  tty_output_update_def tty_fields_def notty_output_update_def notty_fields_def
  long_to_int_def long_div_def long_mod_def NSEC_PER_MSEC_def printf_d_def zero_pad_def
  dec_digits.simps digit_char_def signed_divide_int_def signed_modulo_int_def Let_def

lemma sdiv_nonneg: "0 \<le> k \<Longrightarrow> 0 < l \<Longrightarrow> (k :: int) sdiv l = k div l"
  by (cases "k = 0") (simp_all add: signed_divide_int_def)

lemma sint_long_of_int:
  assumes "- (2 ^ 63) \<le> x" and "x < 2 ^ 63"
  shows "sint (word_of_int x :: long) = x"
proof -
  have "sint (word_of_int x :: long) = signed_take_bit (LENGTH(64) - 1) x"
    by (rule sint_sbintrunc')
  also have "\<dots> = x"
    using assms by (simp add: signed_take_bit_int_eq_self)
  finally show ?thesis .
qed

lemma sint_long_to_int:
  assumes "- (2 ^ 31) \<le> x" and "x < 2 ^ 31"
  shows "sint (long_to_int (word_of_int x)) = x"
proof -
  have "long_to_int (word_of_int x) = (word_of_int x :: cint)"
    unfolding long_to_int_def
    by transfer (simp add: take_bit_take_bit)
  moreover have "sint (word_of_int x :: cint) = signed_take_bit (LENGTH(32) - 1) x"
    by (rule sint_sbintrunc')
  ultimately show ?thesis
    using assms by (simp add: signed_take_bit_int_eq_self)
qed

lemma printf_d_nonneg:
  assumes "0 \<le> x" and "x < 2 ^ 31"
  shows "printf_d w (long_to_int (word_of_int x)) = zero_pad w (dec_digits (nat x))"
  using sint_long_to_int [of x] assms by (simp add: printf_d_def)

lemma fields_nonneg:
  assumes s0: "0 \<le> sint (tv_sec ts)" and s1: "sint (tv_sec ts) < 3600 * 2 ^ 31"
    and n0: "0 \<le> sint (tv_nsec ts)" and n1: "sint (tv_nsec ts) < 1000000000"
  shows "tty_fields ts =
      (long_to_int (word_of_int (sint (tv_sec ts) div 3600)),
       long_to_int (word_of_int (sint (tv_sec ts) div 60 mod 60)),
       long_to_int (word_of_int (sint (tv_sec ts) mod 60)),
       long_to_int (word_of_int (sint (tv_nsec ts) div 1000000)))"
proof -
  let ?s = "sint (tv_sec ts)"
  have m: "sint (word_of_int (?s div 60) :: long) = ?s div 60"
    using s0 s1 by (intro sint_long_of_int) simp_all
  have "0 \<le> ?s div 60" using s0 by simp
  then show ?thesis
    using s0 n0
    by (simp add: tty_fields_def long_div_def long_mod_def NSEC_PER_MSEC_def Let_def
          sdiv_nonneg smod_mod_positive m)
qed

lemma render_fields:
  assumes "0 \<le> s" and "s < 3600 * 2 ^ 31" and "0 \<le> n" and "n < 1000000000"
  shows "printf_d 0 (long_to_int (word_of_int (s div 3600))) @ '':''
       @ printf_d 2 (long_to_int (word_of_int (s div 60 mod 60))) @ [apostrophe]
       @ printf_d 2 (long_to_int (word_of_int (s mod 60))) @ [double_quote]
       @ printf_d 3 (long_to_int (word_of_int (n div 1000000)))
     = render_elapsed (nat s) (nat n)"
proof -
  have h: "printf_d 0 (long_to_int (word_of_int (s div 3600))) = dec_digits (nat s div 3600)"
    using assms(1,2) by (simp add: printf_d_nonneg zero_pad_def nat_div_distrib)
  have m: "printf_d 2 (long_to_int (word_of_int (s div 60 mod 60)))
      = zero_pad 2 (dec_digits (nat s div 60 mod 60))"
    using assms(1) by (simp add: printf_d_nonneg nat_div_distrib nat_mod_distrib)
  have sec: "printf_d 2 (long_to_int (word_of_int (s mod 60))) = zero_pad 2 (dec_digits (nat s mod 60))"
    using assms(1) by (simp add: printf_d_nonneg nat_mod_distrib)
  have ms: "printf_d 3 (long_to_int (word_of_int (n div 1000000)))
      = zero_pad 3 (dec_digits (nat n div 1000000))"
    using assms(3,4) by (simp add: printf_d_nonneg nat_div_distrib)
  show ?thesis
    by (simp add: h m sec ms render_elapsed_def)
qed

lemma tty_notty_fields: "notty_fields ts = tty_fields ts"
  by (simp add: notty_fields_def tty_fields_def)

lemma dec_digits_length:
  "n < 10 \<Longrightarrow> length (dec_digits n) = 1"
  "10 \<le> n \<Longrightarrow> n < 100 \<Longrightarrow> length (dec_digits n) = 2"
  "100 \<le> n \<Longrightarrow> n < 1000 \<Longrightarrow> length (dec_digits n) = 3"
proof -
  show one: "length (dec_digits n) = 1" if "n < 10" for n
    using that by (simp add: dec_digits.simps)
  show two: "length (dec_digits n) = 2" if "10 \<le> n" "n < 100" for n
  proof -
    have "n div 10 < 10" using that by simp
    from one [OF this] that show ?thesis
      by (subst dec_digits.simps) simp
  qed
  show "length (dec_digits n) = 3" if "100 \<le> n" "n < 1000"
  proof -
    have "10 \<le> n div 10" "n div 10 < 100" using that by simp_all
    from two [OF this] that show ?thesis
      by (subst dec_digits.simps) simp
  qed
qed

lemma zero_pad_width:
  "n < 100 \<Longrightarrow> length (zero_pad 2 (dec_digits n)) = 2"
  "n < 1000 \<Longrightarrow> length (zero_pad 3 (dec_digits n)) = 3"
proof -
  show "length (zero_pad 2 (dec_digits n)) = 2" if "n < 100"
    using dec_digits_length(1,2) [of n] that
    by (cases "n < 10") (simp_all add: zero_pad_def)
  show "length (zero_pad 3 (dec_digits n)) = 3" if "n < 1000"
    using dec_digits_length [of n] that
    by (cases "n < 10"; cases "n < 100") (simp_all add: zero_pad_def)
qed

text \<open>The digits that \<open>dec_digits\<close> writes, padded or not, denote the number.\<close>

lemma digit_val_digit_char: "d < 10 \<Longrightarrow> digit_val (digit_char d) = d"
proof -
  assume "d < 10"
  then have "d \<in> {0, 1, 2, 3, 4, 5, 6, 7, 8, 9}"
    by auto
  then show ?thesis
    by (auto simp: digit_val_def digit_char_def)
qed

lemma dec_value_snoc: "dec_value (ds @ [c]) = dec_value ds * 10 + digit_val c"
  by (simp add: dec_value_def)

lemma dec_value_dec_digits: "dec_value (dec_digits n) = n"
proof (induction n rule: dec_digits.induct)
  case (1 n)
  show ?case
  proof (cases "n < 10")
    case True
    then show ?thesis
      by (subst dec_digits.simps) (simp add: dec_value_def digit_val_digit_char)
  next
    case False
    then have "dec_value (dec_digits n) = dec_value (dec_digits (n div 10)) * 10 + n mod 10"
      by (subst dec_digits.simps) (simp add: dec_value_snoc digit_val_digit_char)
    with 1 False show ?thesis by simp
  qed
qed

lemma dec_value_zeros: "dec_value (replicate k (CHR ''0'') @ s) = dec_value s"
proof -
  have "foldl (\<lambda>a c. a * 10 + digit_val c) 0 (replicate k (CHR ''0'')) = 0"
    by (induction k) (simp_all add: digit_val_def)
  then show ?thesis by (simp add: dec_value_def)
qed

lemma dec_value_zero_pad: "dec_value (zero_pad w (dec_digits n)) = n"
  by (simp add: zero_pad_def dec_value_zeros dec_value_dec_digits)

lemma output_update_in_range:
  assumes "0 \<le> sint (tv_sec ts) \<and> sint (tv_sec ts) < 3600 * 2 ^ 31
      \<and> 0 \<le> sint (tv_nsec ts) \<and> sint (tv_nsec ts) < 1000000000"
  shows "tty_output_update ts
      = render_elapsed (nat (sint (tv_sec ts))) (nat (sint (tv_nsec ts))) @ [carriage_return]"
    and "notty_output_update ts
      = render_elapsed (nat (sint (tv_sec ts))) (nat (sint (tv_nsec ts))) @ [newline]"
proof -
  have f: "tty_fields ts =
      (long_to_int (word_of_int (sint (tv_sec ts) div 3600)),
       long_to_int (word_of_int (sint (tv_sec ts) div 60 mod 60)),
       long_to_int (word_of_int (sint (tv_sec ts) mod 60)),
       long_to_int (word_of_int (sint (tv_nsec ts) div 1000000)))"
    using assms by (intro fields_nonneg) simp_all
  have r: "printf_d 0 (long_to_int (word_of_int (sint (tv_sec ts) div 3600))) @ '':''
       @ printf_d 2 (long_to_int (word_of_int (sint (tv_sec ts) div 60 mod 60))) @ [apostrophe]
       @ printf_d 2 (long_to_int (word_of_int (sint (tv_sec ts) mod 60))) @ [double_quote]
       @ printf_d 3 (long_to_int (word_of_int (sint (tv_nsec ts) div 1000000)))
     = render_elapsed (nat (sint (tv_sec ts))) (nat (sint (tv_nsec ts)))"
    using assms by (intro render_fields) simp_all
  show "tty_output_update ts
      = render_elapsed (nat (sint (tv_sec ts))) (nat (sint (tv_nsec ts))) @ [carriage_return]"
    unfolding tty_output_update_def f using r by simp
  show "notty_output_update ts
      = render_elapsed (nat (sint (tv_sec ts))) (nat (sint (tv_nsec ts))) @ [newline]"
    unfolding notty_output_update_def tty_notty_fields f using r by simp
qed

section \<open>Facts about the display loop\<close>

lemma display_loop_ticks:
  assumes "\<forall>ev\<in>set ticks. fst ev \<noteq> SIGINT \<and> fst ev \<noteq> - 1" and "curr_signal \<noteq> SIGINT"
  shows "display_loop update curr_signal (ticks @ rest) io
       = display_loop update (if ticks = [] then curr_signal else fst (last ticks)) rest
           (io\<lparr>stdout := stdout io @ concat (map (\<lambda>ev. update (snd ev)) ticks)\<rparr>)"
  using assms
proof (induction ticks arbitrary: curr_signal io)
  case Nil
  show ?case by simp
next
  case (Cons ev ticks)
  obtain delivered t where ev: "ev = (delivered, t)" by (cases ev)
  with Cons.prems have d: "delivered \<noteq> SIGINT" "delivered \<noteq> - 1" by simp_all
  have "display_loop update curr_signal ((ev # ticks) @ rest) io
      = display_loop update delivered (ticks @ rest) (io\<lparr>stdout := stdout io @ update t\<rparr>)"
    using Cons.prems(2) d by (simp add: ev)
  also have "\<dots> = display_loop update (if ticks = [] then delivered else fst (last ticks)) rest
      (io\<lparr>stdout := stdout io @ update t @ concat (map (\<lambda>ev. update (snd ev)) ticks)\<rparr>)"
    using Cons.IH [of delivered "io\<lparr>stdout := stdout io @ update t\<rparr>"] Cons.prems(1) d(1)
    by simp
  finally show ?case by (simp add: ev)
qed

lemma display_loop_stop:
  "display_loop update SIGINT deliveries io = (Stopped 0, io\<lparr>stdout := stdout io @ [newline]\<rparr>)"
proof (cases deliveries)
  case Nil
  then show ?thesis by simp
next
  case (Cons ev rest)
  then show ?thesis by (cases ev) simp
qed

lemma last_tick_not_SIGINT:
  assumes "\<forall>ev\<in>set ticks. fst ev \<noteq> SIGINT \<and> fst ev \<noteq> - 1"
  shows "(if ticks = [] then 0 else fst (last ticks)) \<noteq> SIGINT"
  using assms by (auto simp: SIGINT_def)

section \<open>Properties of \<open>parse_time_interval\<close>\<close>

text \<open>
  C1 as stated fails on \<open>"1."\<close>: the parser accepts it, as one second. After the point
  the second loop reads no digit, the terminator follows, and the test \<open>i == 1\<close> of
  line 116 holds only when the point is the first character of the input.
\<close>

theorem parse_accepts_trailing_point_counterexample:
  "parse_time_interval ''1.'' \<lparr>tv_sec = 0, tv_nsec = 100000000\<rparr>
     = (0, \<lparr>tv_sec = 1, tv_nsec = 0\<rparr>)"
  by (simp add: parse_eval)

text \<open>
  C1, amended: the parser returns an error, and leaves the \<open>timespec\<close> as it was, for
  each of the inputs \<open>""\<close>, \<open>"."\<close>, \<open>"1.2.3"\<close>, \<open>"abc"\<close>, \<open>"-1"\<close> and \<open>"1 "\<close>; it
  accepts \<open>"1."\<close> as one second and zero nanoseconds. A string of digits followed by a
  point and nothing else is rejected only when there is no digit at all, and is otherwise
  accepted with zero nanoseconds.
\<close>

theorem parse_rejected_inputs:
  "parse_time_interval '''' r = (- 1, r)
   \<and> parse_time_interval ''.'' r = (- 1, r)
   \<and> parse_time_interval ''1.2.3'' r = (- 1, r)
   \<and> parse_time_interval ''abc'' r = (- 1, r)
   \<and> parse_time_interval ''-1'' r = (- 1, r)
   \<and> parse_time_interval ''1 '' r = (- 1, r)
   \<and> parse_time_interval ''1.'' r = (0, r\<lparr>tv_sec := 1, tv_nsec := 0\<rparr>)
   \<and> ((\<forall>c\<in>set ds. isdigit c) \<longrightarrow>
        parse_time_interval (ds @ ''.'') r =
          (if ds = [] then (- 1, r)
           else (0, r\<lparr>tv_sec := of_nat (dec_value ds), tv_nsec := 0\<rparr>)))"
proof (intro conjI impI)
  assume "\<forall>c\<in>set ds. isdigit c"
  then show "parse_time_interval (ds @ ''.'') r =
      (if ds = [] then (- 1, r) else (0, r\<lparr>tv_sec := of_nat (dec_value ds), tv_nsec := 0\<rparr>))"
    using parse_point [of ds "[]" r] by (simp add: Let_def char_at_def success_def)
qed (simp_all add: parse_eval)

theorem parse_rejected_inputs_witness:
  "list_all isdigit ''12''
   \<and> parse_time_interval ''12.'' \<lparr>tv_sec = 0, tv_nsec = 100000000\<rparr>
       = (0, \<lparr>tv_sec = 12, tv_nsec = 0\<rparr>)"
proof -
  have h: "\<forall>c\<in>set ''12''. isdigit c"
    by (simp add: isdigit_def)
  have v: "dec_value ''12'' = 12"
    by (simp add: dec_value_def digit_val_def)
  note t = parse_rejected_inputs [of "\<lparr>tv_sec = 0, tv_nsec = 100000000\<rparr>" "''12''"]
  from t [THEN conjunct2, THEN conjunct2, THEN conjunct2, THEN conjunct2, THEN conjunct2,
          THEN conjunct2, THEN conjunct2, THEN mp, OF h]
  show ?thesis by (simp add: v isdigit_def)
qed

text \<open>
  C3: for every non-empty string of decimal digits the parse succeeds with zero
  nanoseconds; for every such string followed by a point and one to nine digits it
  succeeds, and the nanoseconds are the sum over the fractional positions \<open>k\<close> (from 1)
  of the digit at \<open>k\<close> times \<open>10 ^ (9 - k)\<close>. In both cases the seconds are the value
  of the integer digits, in a \<open>long\<close>. The three examples of the specification follow.
\<close>

theorem parse_digits_and_fraction:
  "((\<forall>c\<in>set ds. isdigit c) \<and> ds \<noteq> [] \<longrightarrow>
      fst (parse_time_interval ds r) = 0
      \<and> tv_sec (snd (parse_time_interval ds r)) = of_nat (dec_value ds)
      \<and> sint (tv_nsec (snd (parse_time_interval ds r))) = 0)
   \<and> ((\<forall>c\<in>set ds. isdigit c) \<and> ds \<noteq> [] \<and> (\<forall>c\<in>set fs. isdigit c)
        \<and> 1 \<le> length fs \<and> length fs \<le> 9 \<longrightarrow>
      fst (parse_time_interval (ds @ ''.'' @ fs) r) = 0
      \<and> tv_sec (snd (parse_time_interval (ds @ ''.'' @ fs) r)) = of_nat (dec_value ds)
      \<and> sint (tv_nsec (snd (parse_time_interval (ds @ ''.'' @ fs) r)))
          = int (fraction_nsec fs))
   \<and> parse_time_interval ''1.5'' r = (0, r\<lparr>tv_sec := 1, tv_nsec := 500000000\<rparr>)
   \<and> parse_time_interval ''0.1'' r = (0, r\<lparr>tv_sec := 0, tv_nsec := 100000000\<rparr>)
   \<and> parse_time_interval ''2.123456789'' r = (0, r\<lparr>tv_sec := 2, tv_nsec := 123456789\<rparr>)"
proof (intro conjI impI)
  assume a: "(\<forall>c\<in>set ds. isdigit c) \<and> ds \<noteq> []"
  then have p: "parse_time_interval ds r = success r (of_nat (dec_value ds)) 0"
    by (simp add: parse_digits)
  show "fst (parse_time_interval ds r) = 0"
    and "tv_sec (snd (parse_time_interval ds r)) = of_nat (dec_value ds)"
    and "sint (tv_nsec (snd (parse_time_interval ds r))) = 0"
    by (simp_all add: p success_def)
next
  assume a: "(\<forall>c\<in>set ds. isdigit c) \<and> ds \<noteq> [] \<and> (\<forall>c\<in>set fs. isdigit c)
        \<and> 1 \<le> length fs \<and> length fs \<le> 9"
  then have ds: "\<forall>c\<in>set ds. isdigit c" and fs: "\<forall>c\<in>set fs. isdigit c"
    and len: "length fs \<le> 9" and ne: "fs \<noteq> []"
    by auto
  have tw: "takeWhile isdigit fs = fs"
    using fs by simp
  have p: "parse_time_interval (ds @ CHR ''.'' # fs) r
      = success r (of_nat (dec_value ds)) (of_nat (weighted 8 fs))"
    using len ne by (simp add: parse_point [OF ds] tw Let_def char_at_end)
  have n: "sint (of_nat (weighted 8 fs) :: long) = int (fraction_nsec fs)"
    using sint_nsec(1) [OF fs len] weighted_fraction_nsec [OF len] by simp
  show "fst (parse_time_interval (ds @ ''.'' @ fs) r) = 0"
    and "tv_sec (snd (parse_time_interval (ds @ ''.'' @ fs) r)) = of_nat (dec_value ds)"
    and "sint (tv_nsec (snd (parse_time_interval (ds @ ''.'' @ fs) r))) = int (fraction_nsec fs)"
    using n by (simp_all add: p success_def)
next
  show "parse_time_interval ''1.5'' r = (0, r\<lparr>tv_sec := 1, tv_nsec := 500000000\<rparr>)"
    by (simp add: parse_eval)
  show "parse_time_interval ''0.1'' r = (0, r\<lparr>tv_sec := 0, tv_nsec := 100000000\<rparr>)"
    by (simp add: parse_eval)
  show "parse_time_interval ''2.123456789'' r = (0, r\<lparr>tv_sec := 2, tv_nsec := 123456789\<rparr>)"
    by (simp add: parse_eval)
qed

theorem parse_digits_and_fraction_witness:
  "list_all isdigit ''12'' \<and> ''12'' \<noteq> [] \<and> list_all isdigit ''25''
   \<and> 1 \<le> length ''25'' \<and> length ''25'' \<le> 9
   \<and> fst (parse_time_interval ''12'' \<lparr>tv_sec = 0, tv_nsec = 100000000\<rparr>) = 0
   \<and> tv_sec (snd (parse_time_interval ''12'' \<lparr>tv_sec = 0, tv_nsec = 100000000\<rparr>)) = 12
   \<and> sint (tv_nsec (snd (parse_time_interval ''12'' \<lparr>tv_sec = 0, tv_nsec = 100000000\<rparr>))) = 0
   \<and> fst (parse_time_interval ''12.25'' \<lparr>tv_sec = 0, tv_nsec = 100000000\<rparr>) = 0
   \<and> tv_sec (snd (parse_time_interval ''12.25'' \<lparr>tv_sec = 0, tv_nsec = 100000000\<rparr>)) = 12
   \<and> sint (tv_nsec (snd (parse_time_interval ''12.25'' \<lparr>tv_sec = 0, tv_nsec = 100000000\<rparr>)))
       = 250000000"
proof -
  have h1: "(\<forall>c\<in>set ''12''. isdigit c) \<and> ''12'' \<noteq> []"
    by (simp add: isdigit_def)
  have h2: "(\<forall>c\<in>set ''12''. isdigit c) \<and> ''12'' \<noteq> [] \<and> (\<forall>c\<in>set ''25''. isdigit c)
        \<and> 1 \<le> length ''25'' \<and> length ''25'' \<le> 9"
    by (simp add: isdigit_def)
  have v: "dec_value ''12'' = 12" "fraction_nsec ''25'' = 250000000"
    by (simp_all add: dec_value_def fraction_nsec_def digit_val_def atLeastAtMost_upt)
  note t = parse_digits_and_fraction [of "''12''" "\<lparr>tv_sec = 0, tv_nsec = 100000000\<rparr>" "''25''"]
  from t [THEN conjunct1, rule_format, OF h1]
    t [THEN conjunct2, THEN conjunct1, rule_format, OF h2]
  show ?thesis
    by (simp add: v isdigit_def)
qed

text \<open>
  C4 as stated fails: \<open>integer_part\<close> is a \<open>long\<close>, and the first loop has no
  overflow check. The twenty digits of \<open>2 ^ 64\<close> are accepted, with zero seconds.
\<close>

theorem parse_seconds_overflow_counterexample:
  "fst (parse_time_interval ''18446744073709551616'' \<lparr>tv_sec = 0, tv_nsec = 100000000\<rparr>) = 0
   \<and> sint (tv_sec (snd (parse_time_interval ''18446744073709551616''
                           \<lparr>tv_sec = 0, tv_nsec = 100000000\<rparr>))) = 0
   \<and> dec_value (integer_digits ''18446744073709551616'') = 18446744073709551616"
  by (simp add: parse_eval dec_value_def integer_digits_def digit_val_def)

text \<open>
  C4, amended: for every accepted input whose integer part denotes a number below
  \<open>2 ^ 63\<close>, the seconds of the result are exactly that number, whatever the length of
  the input (leading zeros included).
\<close>

theorem parse_seconds_exact_below_overflow:
  assumes "fst (parse_time_interval v r) = 0"
    and "dec_value (integer_digits v) < 2 ^ 63"
  shows "sint (tv_sec (snd (parse_time_interval v r))) = int (dec_value (integer_digits v))"
  using parse_success_fields [OF assms(1)] sint_long_of_nat [OF assms(2)] by simp

theorem parse_seconds_exact_below_overflow_witness:
  "fst (parse_time_interval ''42.5'' \<lparr>tv_sec = 0, tv_nsec = 100000000\<rparr>) = 0
   \<and> dec_value (integer_digits ''42.5'') < 2 ^ 63
   \<and> sint (tv_sec (snd (parse_time_interval ''42.5'' \<lparr>tv_sec = 0, tv_nsec = 100000000\<rparr>))) = 42"
proof -
  have h1: "fst (parse_time_interval ''42.5'' \<lparr>tv_sec = 0, tv_nsec = 100000000\<rparr>) = 0"
    by (simp add: parse_eval)
  have v: "dec_value (integer_digits ''42.5'') = 42"
    by (simp add: dec_value_def integer_digits_def isdigit_def digit_val_def)
  have h2: "dec_value (integer_digits ''42.5'') < 2 ^ 63"
    by (simp add: v)
  show ?thesis
    using h1 h2 parse_seconds_exact_below_overflow [OF h1 h2] by (simp add: v)
qed

text \<open>
  C5: for an input made of digits, a point, nine fractional digits and any suffix, the
  parse succeeds; the seconds are the value of the integer digits (in a \<open>long\<close>), the
  nanoseconds are the value of the nine fractional digits, and the result is the one of
  the same input without the suffix. The suffix is not read: the second loop leaves
  through \<open>goto success\<close> when the weight reaches zero.
\<close>

theorem parse_nine_fractional_digits_any_suffix:
  assumes "\<forall>c\<in>set ds. isdigit c" and "\<forall>c\<in>set fs. isdigit c" and "length fs = 9"
  shows "fst (parse_time_interval (ds @ ''.'' @ fs @ suffix) r) = 0
       \<and> tv_sec (snd (parse_time_interval (ds @ ''.'' @ fs @ suffix) r)) = of_nat (dec_value ds)
       \<and> sint (tv_nsec (snd (parse_time_interval (ds @ ''.'' @ fs @ suffix) r)))
           = int (fraction_nsec fs)
       \<and> parse_time_interval (ds @ ''.'' @ fs @ suffix) r
           = parse_time_interval (ds @ ''.'' @ fs) r"
proof -
  have t: "takeWhile isdigit (fs @ suffix) = fs @ takeWhile isdigit suffix"
    using assms(2) by (simp add: takeWhile_append2)
  have tw: "takeWhile isdigit fs = fs"
    using assms(2) by simp
  have with_suffix: "parse_time_interval (ds @ CHR ''.'' # fs @ suffix) r
      = success r (of_nat (dec_value ds)) (of_nat (weighted 8 fs))"
    using assms(3) by (simp add: parse_point [OF assms(1)] t Let_def)
  have without: "parse_time_interval (ds @ CHR ''.'' # fs) r
      = success r (of_nat (dec_value ds)) (of_nat (weighted 8 fs))"
    using assms(3) by (simp add: parse_point [OF assms(1)] tw Let_def)
  have n: "sint (of_nat (weighted 8 fs) :: long) = int (fraction_nsec fs)"
    using sint_nsec(1) [OF assms(2)] weighted_fraction_nsec [of fs] assms(3) by simp
  show ?thesis
    using with_suffix without n by (simp add: success_def)
qed

theorem parse_nine_fractional_digits_any_suffix_witness:
  "list_all isdigit ''2'' \<and> list_all isdigit ''123456789''
   \<and> length ''123456789'' = 9
   \<and> parse_time_interval ''2.123456789 xyz'' \<lparr>tv_sec = 0, tv_nsec = 100000000\<rparr>
       = (0, \<lparr>tv_sec = 2, tv_nsec = 123456789\<rparr>)"
proof -
  have h1: "\<forall>c\<in>set ''2''. isdigit c" by (simp add: isdigit_def)
  have h2: "\<forall>c\<in>set ''123456789''. isdigit c" by (simp add: isdigit_def)
  have h3: "length ''123456789'' = 9" by simp
  have e: "parse_time_interval ''2.123456789'' \<lparr>tv_sec = 0, tv_nsec = 100000000\<rparr>
       = (0, \<lparr>tv_sec = 2, tv_nsec = 123456789\<rparr>)"
    by (simp add: parse_eval)
  from parse_nine_fractional_digits_any_suffix [OF h1 h2 h3, of "'' xyz''" "\<lparr>tv_sec = 0, tv_nsec = 100000000\<rparr>"]
  have "parse_time_interval ''2.123456789 xyz'' \<lparr>tv_sec = 0, tv_nsec = 100000000\<rparr>
      = parse_time_interval ''2.123456789'' \<lparr>tv_sec = 0, tv_nsec = 100000000\<rparr>"
    by simp
  with e show ?thesis by (simp add: isdigit_def)
qed

text \<open>
  C6 as stated fails in its second half: the nineteen digits of \<open>2 ^ 63\<close> are accepted
  and give a negative number of seconds.
\<close>

theorem parse_negative_seconds_counterexample:
  "fst (parse_time_interval ''9223372036854775808'' \<lparr>tv_sec = 0, tv_nsec = 100000000\<rparr>) = 0
   \<and> sint (tv_sec (snd (parse_time_interval ''9223372036854775808''
                           \<lparr>tv_sec = 0, tv_nsec = 100000000\<rparr>))) = - 9223372036854775808"
  by (simp add: parse_eval)

text \<open>
  C6, amended: for every accepted input the nanoseconds of the result lie in
  \<open>[0, 10 ^ 9)\<close>, and the seconds are non-negative whenever the integer part of the
  input denotes a number below \<open>2 ^ 63\<close>.
\<close>

theorem parse_result_normalized:
  assumes "fst (parse_time_interval v r) = 0"
  shows "0 \<le> sint (tv_nsec (snd (parse_time_interval v r)))
       \<and> sint (tv_nsec (snd (parse_time_interval v r))) < 1000000000
       \<and> (dec_value (integer_digits v) < 2 ^ 63 \<longrightarrow>
            0 \<le> sint (tv_sec (snd (parse_time_interval v r))))"
proof -
  obtain fs where fs: "\<forall>c\<in>set fs. isdigit c" "length fs \<le> 9"
    and n: "tv_nsec (snd (parse_time_interval v r)) = of_nat (weighted 8 fs)"
    using parse_success_fields [OF assms] by blast
  have "sint (tv_nsec (snd (parse_time_interval v r))) = int (weighted 8 fs)"
    and "weighted 8 fs < 1000000000"
    using sint_nsec [OF fs] n by simp_all
  moreover have "0 \<le> sint (tv_sec (snd (parse_time_interval v r)))"
    if "dec_value (integer_digits v) < 2 ^ 63"
    using parse_success_fields [OF assms] sint_long_of_nat [OF that] by simp
  ultimately show ?thesis by simp
qed

theorem parse_result_normalized_witness:
  "fst (parse_time_interval ''1.5'' \<lparr>tv_sec = 0, tv_nsec = 100000000\<rparr>) = 0
   \<and> dec_value (integer_digits ''1.5'') < 2 ^ 63
   \<and> 0 \<le> sint (tv_nsec (snd (parse_time_interval ''1.5'' \<lparr>tv_sec = 0, tv_nsec = 100000000\<rparr>)))
   \<and> sint (tv_nsec (snd (parse_time_interval ''1.5'' \<lparr>tv_sec = 0, tv_nsec = 100000000\<rparr>)))
       < 1000000000
   \<and> 0 \<le> sint (tv_sec (snd (parse_time_interval ''1.5'' \<lparr>tv_sec = 0, tv_nsec = 100000000\<rparr>)))"
proof -
  have h1: "fst (parse_time_interval ''1.5'' \<lparr>tv_sec = 0, tv_nsec = 100000000\<rparr>) = 0"
    by (simp add: parse_eval)
  have h2: "dec_value (integer_digits ''1.5'') < 2 ^ 63"
    by (simp add: dec_value_def integer_digits_def isdigit_def digit_val_def)
  show ?thesis
    using h1 h2 parse_result_normalized [OF h1] by blast
qed

text \<open>
  C9: the parser is atomic on error. Whenever \<open>parse_time_interval\<close> returns a non-zero
  value, the \<open>timespec\<close> it was given is unchanged, in both fields: the two fields are
  written only after the label \<open>success\<close>.
\<close>

theorem parse_time_interval_atomic_on_error:
  "fst (parse_time_interval v result) \<noteq> 0 \<Longrightarrow> snd (parse_time_interval v result) = result"
  using parse_time_interval_cases [of v result] by (auto simp: success_def)

theorem parse_time_interval_atomic_on_error_witness:
  "fst (parse_time_interval ''1.2.3'' \<lparr>tv_sec = 0, tv_nsec = 100000000\<rparr>) \<noteq> 0
   \<and> snd (parse_time_interval ''1.2.3'' \<lparr>tv_sec = 0, tv_nsec = 100000000\<rparr>)
       = \<lparr>tv_sec = 0, tv_nsec = 100000000\<rparr>"
proof -
  have h: "fst (parse_time_interval ''1.2.3'' \<lparr>tv_sec = 0, tv_nsec = 100000000\<rparr>) \<noteq> 0"
    by (simp add: parse_eval)
  show ?thesis
    using h parse_time_interval_atomic_on_error [OF h] by simp
qed

section \<open>Properties of the output sinks\<close>

text \<open>
  C7 as stated fails for large durations: the hours are stored in an \<open>int\<close> (line 47),
  so they are not unbounded. An elapsed time of \<open>3600 * 2 ^ 31\<close> seconds is rendered
  with a negative number of hours.
\<close>

theorem hours_wrap_counterexample:
  "sint (tv_sec \<lparr>tv_sec = 7730941132800, tv_nsec = 0\<rparr>) = 7730941132800
   \<and> tty_output_update \<lparr>tv_sec = 7730941132800, tv_nsec = 0\<rparr>
       = ''-2147483648:00'' @ [apostrophe] @ ''00'' @ [double_quote] @ ''000'' @ [carriage_return]
   \<and> render_elapsed 7730941132800 0
       = ''2147483648:00'' @ [apostrophe] @ ''00'' @ [double_quote] @ ''000''"
  by (simp add: output_eval)

text \<open>
  C7, amended: for every elapsed time with a non-negative number of seconds below
  \<open>3600 * 2 ^ 31\<close> (the hours fit in an \<open>int\<close>) and nanoseconds in \<open>[0, 10 ^ 9)\<close>,
  both sinks write \<open>H:MM'SS"mmm\<close> and their line terminator, with \<open>H\<close> the whole hours,
  \<open>MM\<close> and \<open>SS\<close> the minutes within the hour and the seconds within the minute, and
  \<open>mmm\<close> the milliseconds, truncated. \<open>MM\<close> and \<open>SS\<close> take exactly two characters and
  \<open>mmm\<close> exactly three, and the digits of a field, padded to any width, denote its
  number. One hour, two minutes, three seconds and 45 milliseconds are rendered as
  \<open>1:02'03"045\<close>, also when 999999 nanoseconds are added.
\<close>

theorem output_update_renders_elapsed:
  "(0 \<le> sint (tv_sec ts) \<and> sint (tv_sec ts) < 3600 * 2 ^ 31
      \<and> 0 \<le> sint (tv_nsec ts) \<and> sint (tv_nsec ts) < 1000000000 \<longrightarrow>
      tty_output_update ts
        = render_elapsed (nat (sint (tv_sec ts))) (nat (sint (tv_nsec ts))) @ [carriage_return]
      \<and> notty_output_update ts
        = render_elapsed (nat (sint (tv_sec ts))) (nat (sint (tv_nsec ts))) @ [newline])
   \<and> length (zero_pad 2 (dec_digits (secs div 60 mod 60))) = 2
   \<and> length (zero_pad 2 (dec_digits (secs mod 60))) = 2
   \<and> (nsecs < 1000000000 \<longrightarrow> length (zero_pad 3 (dec_digits (nsecs div 1000000))) = 3)
   \<and> dec_value (zero_pad w (dec_digits n)) = n
   \<and> tty_output_update \<lparr>tv_sec = 3723, tv_nsec = 45000000\<rparr>
       = ''1:02'' @ [apostrophe] @ ''03'' @ [double_quote] @ ''045'' @ [carriage_return]
   \<and> notty_output_update \<lparr>tv_sec = 3723, tv_nsec = 45999999\<rparr>
       = ''1:02'' @ [apostrophe] @ ''03'' @ [double_quote] @ ''045'' @ [newline]"
proof -
  note v = dec_value_zero_pad [of w n]
  have "secs div 60 mod 60 < 100" "secs mod 60 < 100"
    by (simp_all add: less_trans [OF mod_less_divisor])
  then have w: "length (zero_pad 2 (dec_digits (secs div 60 mod 60))) = 2"
    "length (zero_pad 2 (dec_digits (secs mod 60))) = 2"
    by (simp_all only: zero_pad_width)
  have ms: "length (zero_pad 3 (dec_digits (nsecs div 1000000))) = 3" if "nsecs < 1000000000"
  proof -
    from that have "nsecs div 1000000 < 1000" by simp
    then show ?thesis by (rule zero_pad_width)
  qed
  have e1: "tty_output_update \<lparr>tv_sec = 3723, tv_nsec = 45000000\<rparr>
       = ''1:02'' @ [apostrophe] @ ''03'' @ [double_quote] @ ''045'' @ [carriage_return]"
    by (simp add: output_eval)
  have e2: "notty_output_update \<lparr>tv_sec = 3723, tv_nsec = 45999999\<rparr>
       = ''1:02'' @ [apostrophe] @ ''03'' @ [double_quote] @ ''045'' @ [newline]"
    by (simp add: output_eval)
  from output_update_in_range [of ts] w ms v e1 e2 show ?thesis by blast
qed

theorem output_update_renders_elapsed_witness:
  "0 \<le> sint (tv_sec \<lparr>tv_sec = 3723, tv_nsec = 45999999\<rparr>)
   \<and> sint (tv_sec \<lparr>tv_sec = 3723, tv_nsec = 45999999\<rparr>) < 3600 * 2 ^ 31
   \<and> 0 \<le> sint (tv_nsec \<lparr>tv_sec = 3723, tv_nsec = 45999999\<rparr>)
   \<and> sint (tv_nsec \<lparr>tv_sec = 3723, tv_nsec = 45999999\<rparr>) < 1000000000
   \<and> (45999999 :: nat) < 1000000000
   \<and> tty_output_update \<lparr>tv_sec = 3723, tv_nsec = 45999999\<rparr>
       = render_elapsed 3723 45999999 @ [carriage_return]
   \<and> notty_output_update \<lparr>tv_sec = 3723, tv_nsec = 45999999\<rparr>
       = render_elapsed 3723 45999999 @ [newline]
   \<and> length (zero_pad 3 (dec_digits (45999999 div 1000000))) = 3"
proof -
  have h: "0 \<le> sint (tv_sec \<lparr>tv_sec = 3723, tv_nsec = 45999999\<rparr>)
   \<and> sint (tv_sec \<lparr>tv_sec = 3723, tv_nsec = 45999999\<rparr>) < 3600 * 2 ^ 31
   \<and> 0 \<le> sint (tv_nsec \<lparr>tv_sec = 3723, tv_nsec = 45999999\<rparr>)
   \<and> sint (tv_nsec \<lparr>tv_sec = 3723, tv_nsec = 45999999\<rparr>) < 1000000000"
    by simp
  have k: "(45999999 :: nat) < 1000000000"
    by simp
  note t = output_update_renders_elapsed [of "\<lparr>tv_sec = 3723, tv_nsec = 45999999\<rparr>" 3723 45999999 0 0]
  from t [THEN conjunct1, THEN mp, OF h]
    t [THEN conjunct2, THEN conjunct2, THEN conjunct2, THEN conjunct1, THEN mp, OF k] h
  show ?thesis by simp
qed

text \<open>
  C10: the two sinks are equivalent up to the line terminator. For every \<open>timespec\<close>
  they compute the same hours, minutes, seconds and milliseconds and write the same
  text, followed by a carriage return for the terminal and by a newline otherwise.
\<close>

theorem tty_notty_equivalent:
  "tty_fields ts = notty_fields ts
   \<and> butlast (tty_output_update ts) = butlast (notty_output_update ts)
   \<and> last (tty_output_update ts) = carriage_return
   \<and> last (notty_output_update ts) = newline"
  by (simp add: tty_output_update_def notty_output_update_def tty_notty_fields
        butlast_append split: prod.split)

section \<open>Properties of \<open>parse_args\<close>\<close>

text \<open>
  C8: with no command-line argument (\<open>argv\<close> holds the program name alone),
  \<open>parse_args\<close> returns without error and the refresh interval is 0 seconds and
  100,000,000 nanoseconds, whatever the \<open>timespec\<close> held before.
\<close>

theorem parse_args_default_interval:
  "parse_args [prog_name] refresh_interval
     = Inr (refresh_interval\<lparr>tv_sec := 0, tv_nsec := 100000000\<rparr>)"
  by (simp add: parse_args_def parse_args_loop.simps getopt_def getopt_init_def
        NSEC_PER_MSEC_def)

theorem parse_args_default_interval_witness:
  "parse_args [''stopwatch''] \<lparr>tv_sec = 7, tv_nsec = 9\<rparr>
     = Inr \<lparr>tv_sec = 0, tv_nsec = 100000000\<rparr>
   \<and> sint (100000000 :: long) = 100000000"
  using parse_args_default_interval [of "''stopwatch''" "\<lparr>tv_sec = 7, tv_nsec = 9\<rparr>"]
  by simp

section \<open>Properties of the display loop\<close>

text \<open>
  C2 as stated fails on the Stop event: when \<open>sigwaitinfo\<close> delivers \<open>SIGINT\<close>, the
  body of the loop still runs to its end, so the elapsed time is sampled and forwarded
  to the sink once more before the final newline.
\<close>

theorem display_loop_samples_on_stop_counterexample:
  "display_loop tty_output_update 0 [(SIGINT, \<lparr>tv_sec = 1, tv_nsec = 0\<rparr>)]
     \<lparr>stdout = [], stderr = []\<rparr>
   = (Stopped 0,
      \<lparr>stdout = ''0:00'' @ [apostrophe] @ ''01'' @ [double_quote] @ ''000''
                  @ [carriage_return] @ [newline],
       stderr = []\<rparr>)"
  by (simp add: SIGINT_def output_eval)

text \<open>
  C2, amended: every delivery of a signal, the timer's as well as \<open>SIGINT\<close>, makes the
  loop sample the elapsed time and forward it to the sink. After a Tick the loop keeps
  running (with no delivery left it is blocked in the wait). After the sample of the
  Stop event the loop writes the final newline and returns 0 to the caller. The only
  other transition is the failure of the wait: \<open>sigwaitinfo\<close> returns \<open>-1\<close>, the loop
  forwards no sample, writes a message to \<open>stderr\<close> and returns \<open>-1\<close>.
\<close>

theorem display_loop_transitions:
  assumes "\<forall>ev\<in>set ticks. fst ev \<noteq> SIGINT \<and> fst ev \<noteq> - 1"
  shows "display_loop update 0 ticks io
           = (Running, io\<lparr>stdout := stdout io @ concat (map (\<lambda>ev. update (snd ev)) ticks)\<rparr>)
       \<and> display_loop update 0 (ticks @ (SIGINT, t) # rest) io
           = (Stopped 0,
              io\<lparr>stdout := stdout io @ concat (map (\<lambda>ev. update (snd ev)) ticks) @ update t @ [newline]\<rparr>)
       \<and> display_loop update 0 (ticks @ (- 1, t) # rest) io
           = (Stopped (- 1),
              io\<lparr>stdout := stdout io @ concat (map (\<lambda>ev. update (snd ev)) ticks),
                 stderr := stderr io @ ''error calling sigwaitinfo'' @ [newline]\<rparr>)"
proof -
  have z: "(0::int) \<noteq> SIGINT" by (simp add: SIGINT_def)
  note n = last_tick_not_SIGINT [OF assms]
  have m: "- 1 \<noteq> SIGINT" by (simp add: SIGINT_def)
  have "display_loop update 0 ticks io
      = (Running, io\<lparr>stdout := stdout io @ concat (map (\<lambda>ev. update (snd ev)) ticks)\<rparr>)"
    using display_loop_ticks [OF assms z, of update "[]" io] n by simp
  moreover have "display_loop update 0 (ticks @ (SIGINT, t) # rest) io
      = (Stopped 0,
         io\<lparr>stdout := stdout io @ concat (map (\<lambda>ev. update (snd ev)) ticks) @ update t @ [newline]\<rparr>)"
    using display_loop_ticks [OF assms z, of update "(SIGINT, t) # rest" io] n m
    by (simp add: display_loop_stop)
  moreover have "display_loop update 0 (ticks @ (- 1, t) # rest) io
      = (Stopped (- 1),
         io\<lparr>stdout := stdout io @ concat (map (\<lambda>ev. update (snd ev)) ticks),
            stderr := stderr io @ ''error calling sigwaitinfo'' @ [newline]\<rparr>)"
    using display_loop_ticks [OF assms z, of update "(- 1, t) # rest" io] n
    by simp
  ultimately show ?thesis by simp
qed

theorem display_loop_transitions_witness:
  "display_loop notty_output_update 0
     [(34, \<lparr>tv_sec = 0, tv_nsec = 100000000\<rparr>), (34, \<lparr>tv_sec = 0, tv_nsec = 200000000\<rparr>),
      (SIGINT, \<lparr>tv_sec = 0, tv_nsec = 250000000\<rparr>)]
     \<lparr>stdout = [], stderr = []\<rparr>
   = (Stopped 0,
      \<lparr>stdout = notty_output_update \<lparr>tv_sec = 0, tv_nsec = 100000000\<rparr>
                  @ notty_output_update \<lparr>tv_sec = 0, tv_nsec = 200000000\<rparr>
                  @ notty_output_update \<lparr>tv_sec = 0, tv_nsec = 250000000\<rparr> @ [newline],
       stderr = []\<rparr>)"
proof -
  have h: "\<forall>ev\<in>set [(34, \<lparr>tv_sec = 0, tv_nsec = 100000000\<rparr>),
      (34 :: int, \<lparr>tv_sec = 0, tv_nsec = 200000000\<rparr>)]. fst ev \<noteq> SIGINT \<and> fst ev \<noteq> - 1"
    by (simp add: SIGINT_def)
  from display_loop_transitions [OF h, of notty_output_update "\<lparr>stdout = [], stderr = []\<rparr>"
      "\<lparr>tv_sec = 0, tv_nsec = 250000000\<rparr>" "[]", THEN conjunct2, THEN conjunct1]
  show ?thesis by simp
qed

end
